theory Spec2Isabelle
  imports Main "HOL-Library.Word"
begin

section \<open>Kubernetes objects\<close>

text \<open>
  The fields of the API objects that \<^verbatim>\<open>pkg/controller/externalservices.go\<close> reads.
  Every object carries its metadata (name and namespace); the three kinds extend it.
\<close>

record ObjectMeta =
  Name :: string
  Namespace :: string

record EndpointSubset =
  Addresses :: "string list"

record Pod = ObjectMeta +
  HostIP :: string
  Ready :: bool

record Service = ObjectMeta +
  ExternalIPs :: "string list"

record Endpoints = ObjectMeta +
  Subsets :: "EndpointSubset list"

text \<open>
  Modelled from the spec: \<^verbatim>\<open>util.IsPodReady\<close> (package \<^verbatim>\<open>pkg/util\<close>) is not among the
  sources. The spec gives a proxy a readiness flag, "its liveness/readiness condition is
  satisfied"; the flag is the field \<open>Ready\<close>.
\<close>

definition IsPodReady :: "Pod \<Rightarrow> bool" where
  "IsPodReady pod = Ready pod"

text \<open>
  The constants \<^verbatim>\<open>types.KubeProxyPrefix\<close> and \<^verbatim>\<open>types.KubeProxyNamespace\<close> are declared
  in a package that is not among the sources; the handlers take them as a parameter.
\<close>

record types =
  KubeProxyPrefix :: string
  KubeProxyNamespace :: string

section \<open>Go library functions\<close>

text \<open>\<^verbatim>\<open>strings.HasPrefix(s, prefix)\<close>.\<close>

definition HasPrefix :: "string \<Rightarrow> string \<Rightarrow> bool" where
  "HasPrefix s pre = (length s \<ge> length pre \<and> take (length pre) s = pre)"

text \<open>
  \<^verbatim>\<open>net.IP\<close> is a byte slice; the nil slice is the empty list. \<open>To4\<close> is \<^verbatim>\<open>IP.To4\<close>: a
  4-byte address is returned as it is, a 16-byte address with the IPv4-in-IPv6 prefix
  (ten zero bytes, then \<open>0xff 0xff\<close>) gives its last four bytes, anything else nil.
\<close>

type_synonym IP = "8 word list"

definition isZeros :: "IP \<Rightarrow> bool" where
  "isZeros p = (filter (\<lambda>b. b \<noteq> 0) p = [])"

definition To4 :: "IP \<Rightarrow> IP" where
  "To4 ip =
     (if length ip = 4 then ip
      else if length ip = 16 \<and> isZeros (take 10 ip) \<and> ip ! 10 = 0xff \<and> ip ! 11 = 0xff
           then take 4 (drop 12 ip)
      else [])"

text \<open>\<^verbatim>\<open>uitoa\<close>: the decimal digits of an unsigned number.\<close>

fun uitoa :: "nat \<Rightarrow> string" where
  "uitoa n = (if n < 10 then [''0123456789'' ! n]
              else uitoa (n div 10) @ [''0123456789'' ! (n mod 10)])"

declare uitoa.simps [simp del]

text \<open>
  \<^verbatim>\<open>IP.String\<close> on what \<open>To4\<close> returns: \<^verbatim>\<open>"<nil>"\<close> for the nil slice, the dotted decimal
  form for four bytes. The handler calls \<^verbatim>\<open>String\<close> only on the result of \<^verbatim>\<open>To4\<close>, whose
  length is 0 or 4, so the IPv6 branches of \<^verbatim>\<open>String\<close> are never reached and are not
  modelled.
\<close>

definition IP_String :: "IP \<Rightarrow> string" where
  "IP_String ip =
     (if length ip = 0 then ''<nil>''
      else uitoa (unat (ip ! 0)) @ ''.'' @ uitoa (unat (ip ! 1)) @ ''.'' @
           uitoa (unat (ip ! 2)) @ ''.'' @ uitoa (unat (ip ! 3)))"

section \<open>The observed-state caches\<close>

text \<open>
  Modelled from the spec: \<^verbatim>\<open>cache.Store\<close> and \<^verbatim>\<open>cache.DeletionHandlingMetaNamespaceKeyFunc\<close>
  belong to the vendored client library, which is not among the sources. The spec
  (Observed-State Cache): "Keying is by a deterministic identity function over
  (namespace, name)", "Add on an existing key overwrites (idempotent upsert). Delete on
  a missing key is a no-op.", \<^verbatim>\<open>Get(obj)\<close> answers whether the key of \<^verbatim>\<open>obj\<close> is stored. The
  store is the list of its objects; \<^verbatim>\<open>List\<close> returns them. The spec gives \<^verbatim>\<open>List\<close> no
  order; here it is the order of insertion, and no property below depends on it.
\<close>

type_synonym key = "string \<times> string"

definition MetaNamespaceKeyFunc :: "'a ObjectMeta_scheme \<Rightarrow> key" where
  "MetaNamespaceKeyFunc obj = (Namespace obj, Name obj)"

type_synonym 'a Store = "'a list"

definition NewStore :: "'a Store" where
  "NewStore = []"

definition same_key :: "'a ObjectMeta_scheme \<Rightarrow> 'b ObjectMeta_scheme \<Rightarrow> bool" where
  "same_key obj x = (MetaNamespaceKeyFunc x = MetaNamespaceKeyFunc obj)"

definition store_Get :: "'a ObjectMeta_scheme Store \<Rightarrow> 'b ObjectMeta_scheme \<Rightarrow> 'a ObjectMeta_scheme option" where
  "store_Get st obj = find (same_key obj) st"

definition store_Add :: "'a ObjectMeta_scheme Store \<Rightarrow> 'a ObjectMeta_scheme \<Rightarrow> 'a ObjectMeta_scheme Store" where
  "store_Add st obj =
     (if store_Get st obj = None then st @ [obj]
      else map (\<lambda>x. if same_key obj x then obj else x) st)"

definition store_Delete :: "'a ObjectMeta_scheme Store \<Rightarrow> 'b ObjectMeta_scheme \<Rightarrow> 'a ObjectMeta_scheme Store" where
  "store_Delete st obj = filter (\<lambda>x. \<not> same_key obj x) st"

definition store_List :: "'a Store \<Rightarrow> 'a list" where
  "store_List st = st"

section \<open>The route store\<close>

text \<open>
  Modelled from the spec: \<^verbatim>\<open>bgp.ExternalIPRoutesStore\<close> (package \<^verbatim>\<open>pkg/bgp\<close>) is not among
  the sources. The spec (Route Store contract): \<^verbatim>\<open>List()\<close> returns the sequence of routes;
  \<^verbatim>\<open>Add(service, proxy)\<close> and \<^verbatim>\<open>Delete(route)\<close> return an error or succeed, and both are
  idempotent ("adding an already-existing route must be ... a no-op at the Route Store,
  not an error"); "each route carries enough identity to map back to a Service and a
  Proxy", and routes are "keyed by (Service, Proxy)": the key of a route is the pair of
  the keys of its Service and its Proxy. A call that returns an error leaves the routes
  as they are.

  A route holds its Service and its Proxy, as the controller reads \<^verbatim>\<open>route.Service\<close> and
  \<^verbatim>\<open>route.Proxy\<close>. Whether a call fails is decided outside the controller: \<open>bgp\<close> answers
  each call, given the calls answered before it. The store records every call it
  receives with its answer (\<open>issued\<close>, oldest first), so that what one reconcile run
  asked of the store can be stated.
\<close>

record ExternalIPRoute =
  Service :: Service
  Proxy :: Pod

type_synonym error = string

datatype call = CallDelete ExternalIPRoute | CallAdd Service Pod

type_synonym bgp = "(call \<times> error option) list \<Rightarrow> call \<Rightarrow> error option"

record ExternalIPRoutesStore =
  entries :: "ExternalIPRoute list"
  issued :: "(call \<times> error option) list"

definition route_key :: "ExternalIPRoute \<Rightarrow> key \<times> key" where
  "route_key r = (MetaNamespaceKeyFunc (Service r), MetaNamespaceKeyFunc (Proxy r))"

definition routes_List :: "ExternalIPRoutesStore \<Rightarrow> ExternalIPRoute list" where
  "routes_List st = entries st"

definition routes_Delete ::
  "bgp \<Rightarrow> ExternalIPRoute \<Rightarrow> ExternalIPRoutesStore \<Rightarrow> error option \<times> ExternalIPRoutesStore" where
  "routes_Delete B route st =
     (case B (issued st) (CallDelete route) of
        Some err \<Rightarrow> (Some err, st\<lparr>issued := issued st @ [(CallDelete route, Some err)]\<rparr>)
      | None \<Rightarrow>
          (None, st\<lparr>entries := filter (\<lambda>x. route_key x \<noteq> route_key route) (entries st),
                     issued := issued st @ [(CallDelete route, None)]\<rparr>))"

definition routes_Add ::
  "bgp \<Rightarrow> Service \<Rightarrow> Pod \<Rightarrow> ExternalIPRoutesStore \<Rightarrow> error option \<times> ExternalIPRoutesStore" where
  "routes_Add B service proxy st =
     (case B (issued st) (CallAdd service proxy) of
        Some err \<Rightarrow> (Some err, st\<lparr>issued := issued st @ [(CallAdd service proxy, Some err)]\<rparr>)
      | None \<Rightarrow>
          (None, st\<lparr>entries :=
                       (if find (\<lambda>x. route_key x = route_key \<lparr>Service = service, Proxy = proxy\<rparr>)
                             (entries st) = None
                        then entries st @ [\<lparr>Service = service, Proxy = proxy\<rparr>]
                        else entries st),
                     issued := issued st @ [(CallAdd service proxy, None)]\<rparr>))"

section \<open>The controller\<close>

text \<open>
  Modelled from the spec: the dirty reconciler (\<^verbatim>\<open>reconciler.DirtyReconcilerInterface\<close>,
  package \<^verbatim>\<open>pkg/forked/util\<close>) is not among the sources. The spec: marking dirty is
  non-blocking, only sets a pending flag and never invokes the reconcile function inline.
  The handlers only call its \<^verbatim>\<open>Dirty()\<close>; the field \<open>reconciler\<close> of the controller counts
  these calls, the dirty signals raised so far, so that a handler that raises none can
  be told from one that raises one while the flag is already set.
\<close>

record ExternalServicesController =
  routes :: ExternalIPRoutesStore
  reconciler :: nat
  hostIP :: IP
  services :: "Service Store"
  endpoints :: "Endpoints Store"
  proxies :: "Pod Store"

definition Dirty :: "ExternalServicesController \<Rightarrow> ExternalServicesController" where
  "Dirty c = c\<lparr>reconciler := Suc (reconciler c)\<rparr>"

definition NewExternalServicesController ::
  "IP \<Rightarrow> ExternalIPRoutesStore \<Rightarrow> ExternalServicesController" where
  "NewExternalServicesController ip rs =
     \<lparr>routes = rs, reconciler = 0, hostIP = ip,
      services = NewStore, endpoints = NewStore, proxies = NewStore\<rparr>"

subsection \<open>Pod handlers\<close>

definition podDelete :: "Pod \<Rightarrow> ExternalServicesController \<Rightarrow> ExternalServicesController" where
  "podDelete pod c =
     (if store_Get (proxies c) pod \<noteq> None
      then Dirty (c\<lparr>proxies := store_Delete (proxies c) pod\<rparr>)
      else c)"

definition podAdd :: "types \<Rightarrow> Pod \<Rightarrow> ExternalServicesController \<Rightarrow> ExternalServicesController" where
  "podAdd T pod c =
     (if \<not> HasPrefix (Name pod) (KubeProxyPrefix T) \<or> Namespace pod \<noteq> KubeProxyNamespace T
      then c
      else if HostIP pod \<noteq> IP_String (To4 (hostIP c))
      then c
      else if IsPodReady pod
      then (if store_Get (proxies c) pod = None
            then Dirty (c\<lparr>proxies := store_Add (proxies c) pod\<rparr>)
            else c)
      else (if store_Get (proxies c) pod \<noteq> None
            then Dirty (c\<lparr>proxies := store_Delete (proxies c) pod\<rparr>)
            else c))"

definition podUpdate ::
  "types \<Rightarrow> Pod \<Rightarrow> Pod \<Rightarrow> ExternalServicesController \<Rightarrow> ExternalServicesController" where
  "podUpdate T old cur c = podAdd T cur c"

subsection \<open>Service handlers\<close>

definition serviceDelete :: "Service \<Rightarrow> ExternalServicesController \<Rightarrow> ExternalServicesController" where
  "serviceDelete service c = Dirty (c\<lparr>services := store_Delete (services c) service\<rparr>)"

definition serviceAdd :: "Service \<Rightarrow> ExternalServicesController \<Rightarrow> ExternalServicesController" where
  "serviceAdd service c =
     (if length (ExternalIPs service) = 0
      then c
      else if store_Get (services c) service = None
      then Dirty (c\<lparr>services := store_Add (services c) service\<rparr>)
      else c)"

definition serviceUpdate ::
  "Service \<Rightarrow> Service \<Rightarrow> ExternalServicesController \<Rightarrow> ExternalServicesController" where
  "serviceUpdate old cur c = serviceAdd cur c"

subsection \<open>Endpoints handlers\<close>

definition endpointsDelete :: "Endpoints \<Rightarrow> ExternalServicesController \<Rightarrow> ExternalServicesController" where
  "endpointsDelete eps c =
     (if store_Get (endpoints c) eps \<noteq> None
      then Dirty (c\<lparr>endpoints := store_Delete (endpoints c) eps\<rparr>)
      else c)"

text \<open>The loop of \<^verbatim>\<open>endpointsAdd\<close> over the subsets: the first subset with an address stops it.\<close>

fun subsets_ready :: "EndpointSubset list \<Rightarrow> bool" where
  "subsets_ready [] = False"
| "subsets_ready (v # vs) = (if length (Addresses v) > 0 then True else subsets_ready vs)"

definition endpointsAdd :: "Endpoints \<Rightarrow> ExternalServicesController \<Rightarrow> ExternalServicesController" where
  "endpointsAdd eps c =
     (if subsets_ready (Subsets eps)
      then (if store_Get (endpoints c) eps = None
            then Dirty (c\<lparr>endpoints := store_Add (endpoints c) eps\<rparr>)
            else c)
      else (if store_Get (endpoints c) eps \<noteq> None
            then Dirty (c\<lparr>endpoints := store_Delete (endpoints c) eps\<rparr>)
            else c))"

definition endpointsUpdate ::
  "Endpoints \<Rightarrow> Endpoints \<Rightarrow> ExternalServicesController \<Rightarrow> ExternalServicesController" where
  "endpointsUpdate old cur c = endpointsAdd cur c"

subsection \<open>Notifications\<close>

text \<open>
  The event source calls the three registered callbacks of each kind
  (\<^verbatim>\<open>AddFunc\<close>, \<^verbatim>\<open>UpdateFunc\<close>, \<^verbatim>\<open>DeleteFunc\<close>); a sequence of notifications is handled
  in order.
\<close>

datatype pod_event = PodAdded Pod | PodUpdated Pod Pod | PodDeleted Pod

datatype endpoints_event =
  EndpointsAdded Endpoints | EndpointsUpdated Endpoints Endpoints | EndpointsDeleted Endpoints

fun pod_notify :: "types \<Rightarrow> pod_event \<Rightarrow> ExternalServicesController \<Rightarrow> ExternalServicesController" where
  "pod_notify T (PodAdded pod) c = podAdd T pod c"
| "pod_notify T (PodUpdated old cur) c = podUpdate T old cur c"
| "pod_notify T (PodDeleted pod) c = podDelete pod c"

fun pod_events :: "types \<Rightarrow> pod_event list \<Rightarrow> ExternalServicesController \<Rightarrow> ExternalServicesController" where
  "pod_events T [] c = c"
| "pod_events T (e # es) c = pod_events T es (pod_notify T e c)"

fun endpoints_notify :: "endpoints_event \<Rightarrow> ExternalServicesController \<Rightarrow> ExternalServicesController" where
  "endpoints_notify (EndpointsAdded eps) c = endpointsAdd eps c"
| "endpoints_notify (EndpointsUpdated old cur) c = endpointsUpdate old cur c"
| "endpoints_notify (EndpointsDeleted eps) c = endpointsDelete eps c"

fun endpoints_events :: "endpoints_event list \<Rightarrow> ExternalServicesController \<Rightarrow> ExternalServicesController" where
  "endpoints_events [] c = c"
| "endpoints_events (e # es) c = endpoints_events es (endpoints_notify e c)"

subsection \<open>Reconcile\<close>

text \<open>
  The body of the first loop of \<^verbatim>\<open>reconcile\<close>: three checks one after the other, each
  with its own \<^verbatim>\<open>Delete\<close>; an error returns at once.
\<close>

definition prune_route ::
  "bgp \<Rightarrow> ExternalServicesController \<Rightarrow> ExternalIPRoute \<Rightarrow> ExternalIPRoutesStore
     \<Rightarrow> error option \<times> ExternalIPRoutesStore" where
  "prune_route B c route st =
     (case (if store_Get (proxies c) (Proxy route) = None
            then routes_Delete B route st else (None, st)) of
        (Some err, st1) \<Rightarrow> (Some err, st1)
      | (None, st1) \<Rightarrow>
     (case (if store_Get (services c) (Service route) = None
            then routes_Delete B route st1 else (None, st1)) of
        (Some err, st2) \<Rightarrow> (Some err, st2)
      | (None, st2) \<Rightarrow>
          (if store_Get (endpoints c) (Service route) = None
           then routes_Delete B route st2 else (None, st2))))"

fun prune ::
  "bgp \<Rightarrow> ExternalServicesController \<Rightarrow> ExternalIPRoute list \<Rightarrow> ExternalIPRoutesStore
     \<Rightarrow> error option \<times> ExternalIPRoutesStore" where
  "prune B c [] st = (None, st)"
| "prune B c (route # rest) st =
     (case prune_route B c route st of
        (Some err, st') \<Rightarrow> (Some err, st')
      | (None, st') \<Rightarrow> prune B c rest st')"

text \<open>The second loop: for every cached proxy, every cached service that has endpoints.\<close>

fun converge_services ::
  "bgp \<Rightarrow> ExternalServicesController \<Rightarrow> Pod \<Rightarrow> Service list \<Rightarrow> ExternalIPRoutesStore
     \<Rightarrow> error option \<times> ExternalIPRoutesStore" where
  "converge_services B c proxy [] st = (None, st)"
| "converge_services B c proxy (service # rest) st =
     (if store_Get (endpoints c) service \<noteq> None
      then (case routes_Add B service proxy st of
              (Some err, st') \<Rightarrow> (Some err, st')
            | (None, st') \<Rightarrow> converge_services B c proxy rest st')
      else converge_services B c proxy rest st)"

fun converge ::
  "bgp \<Rightarrow> ExternalServicesController \<Rightarrow> Pod list \<Rightarrow> ExternalIPRoutesStore
     \<Rightarrow> error option \<times> ExternalIPRoutesStore" where
  "converge B c [] st = (None, st)"
| "converge B c (proxy # rest) st =
     (case converge_services B c proxy (store_List (services c)) st of
        (Some err, st') \<Rightarrow> (Some err, st')
      | (None, st') \<Rightarrow> converge B c rest st')"

definition reconcile ::
  "bgp \<Rightarrow> ExternalServicesController \<Rightarrow> error option \<times> ExternalServicesController" where
  "reconcile B c =
     (case prune B c (routes_List (routes c)) (routes c) of
        (Some err, st) \<Rightarrow> (Some err, c\<lparr>routes := st\<rparr>)
      | (None, st) \<Rightarrow>
          (case converge B c (store_List (proxies c)) st of
             (res, st') \<Rightarrow> (res, c\<lparr>routes := st'\<rparr>)))"

section \<open>What the properties speak about\<close>

subsection \<open>Calls of one reconcile run\<close>

text \<open>
  The calls one run of \<^verbatim>\<open>reconcile\<close> issues to the route store, with their answers: what
  the run appended to the store's record. \<open>delete_targets\<close> lists the routes \<^verbatim>\<open>Delete\<close> was
  invoked on, one entry per invocation.
\<close>

definition reconcile_calls :: "bgp \<Rightarrow> ExternalServicesController \<Rightarrow> (call \<times> error option) list" where
  "reconcile_calls B c =
     drop (length (issued (routes c))) (issued (routes (snd (reconcile B c))))"

fun delete_targets :: "(call \<times> error option) list \<Rightarrow> ExternalIPRoute list" where
  "delete_targets [] = []"
| "delete_targets ((CallDelete r, res) # es) = r # delete_targets es"
| "delete_targets ((CallAdd s p, res) # es) = delete_targets es"

subsection \<open>Validity of a route, readiness of an object\<close>

text \<open>
  The three validity conditions of a route, as the first loop of \<^verbatim>\<open>reconcile\<close> tests them,
  and the number of them a route fails.
\<close>

definition route_valid :: "ExternalServicesController \<Rightarrow> ExternalIPRoute \<Rightarrow> bool" where
  "route_valid c r =
     (store_Get (proxies c) (Proxy r) \<noteq> None \<and>
      store_Get (services c) (Service r) \<noteq> None \<and>
      store_Get (endpoints c) (Service r) \<noteq> None)"

definition failed_checks :: "ExternalServicesController \<Rightarrow> ExternalIPRoute \<Rightarrow> nat" where
  "failed_checks c r =
     (if store_Get (proxies c) (Proxy r) = None then 1 else 0) +
     (if store_Get (services c) (Service r) = None then 1 else 0) +
     (if store_Get (endpoints c) (Service r) = None then 1 else 0)"

text \<open>
  The readiness filters: the conditions under which the add path of each kind reaches its
  insert branch.
\<close>

definition proxy_ready :: "types \<Rightarrow> ExternalServicesController \<Rightarrow> Pod \<Rightarrow> bool" where
  "proxy_ready T c pod =
     (HasPrefix (Name pod) (KubeProxyPrefix T) \<and> Namespace pod = KubeProxyNamespace T \<and>
      HostIP pod = IP_String (To4 (hostIP c)) \<and> IsPodReady pod)"

definition service_ready :: "Service \<Rightarrow> bool" where
  "service_ready s = (ExternalIPs s \<noteq> [])"

definition endpoints_ready :: "Endpoints \<Rightarrow> bool" where
  "endpoints_ready eps = (\<exists>v\<in>set (Subsets eps). Addresses v \<noteq> [])"

text \<open>
  A keyed store holds at most one object per key; \<open>entries_for obj st\<close> counts the objects
  of \<open>st\<close> stored under the key of \<open>obj\<close>.
\<close>

definition keys_distinct :: "'a ObjectMeta_scheme Store \<Rightarrow> bool" where
  "keys_distinct st = distinct (map MetaNamespaceKeyFunc (store_List st))"

definition entries_for :: "'b ObjectMeta_scheme \<Rightarrow> 'a ObjectMeta_scheme Store \<Rightarrow> nat" where
  "entries_for obj st = length (filter (same_key obj) (store_List st))"

subsection \<open>The run as a list of calls\<close>

text \<open>
  The caches do not change during a run and the route list is read once, so the calls a
  run would issue if none failed are a function of the controller: \<open>reconcile_plan\<close>.
  \<open>run_calls\<close> issues a list of calls in order and stops at the first error;
  \<open>answers\<close> is the record it leaves; \<open>call_effect\<close> is what a successful call does
  to the routes. The lemmas below show that \<^verbatim>\<open>reconcile\<close> is \<open>run_calls\<close> on its plan.
\<close>

fun call_effect :: "call \<Rightarrow> ExternalIPRoute list \<Rightarrow> ExternalIPRoute list" where
  "call_effect (CallDelete route) rs = filter (\<lambda>x. route_key x \<noteq> route_key route) rs"
| "call_effect (CallAdd service proxy) rs =
     (if find (\<lambda>x. route_key x = route_key \<lparr>Service = service, Proxy = proxy\<rparr>) rs = None
      then rs @ [\<lparr>Service = service, Proxy = proxy\<rparr>] else rs)"

fun apply_call :: "bgp \<Rightarrow> call \<Rightarrow> ExternalIPRoutesStore \<Rightarrow> error option \<times> ExternalIPRoutesStore" where
  "apply_call B (CallDelete route) st = routes_Delete B route st"
| "apply_call B (CallAdd service proxy) st = routes_Add B service proxy st"

fun run_calls :: "bgp \<Rightarrow> call list \<Rightarrow> ExternalIPRoutesStore \<Rightarrow> error option \<times> ExternalIPRoutesStore" where
  "run_calls B [] st = (None, st)"
| "run_calls B (x # xs) st =
     (case apply_call B x st of
        (Some err, st') \<Rightarrow> (Some err, st')
      | (None, st') \<Rightarrow> run_calls B xs st')"

fun answers :: "bgp \<Rightarrow> (call \<times> error option) list \<Rightarrow> call list \<Rightarrow> (call \<times> error option) list" where
  "answers B h [] = []"
| "answers B h (x # xs) =
     (case B h x of
        Some err \<Rightarrow> [(x, Some err)]
      | None \<Rightarrow> (x, None) # answers B (h @ [(x, None)]) xs)"

definition prune_calls :: "ExternalServicesController \<Rightarrow> ExternalIPRoute \<Rightarrow> call list" where
  "prune_calls c route =
     (if store_Get (proxies c) (Proxy route) = None then [CallDelete route] else []) @
     (if store_Get (services c) (Service route) = None then [CallDelete route] else []) @
     (if store_Get (endpoints c) (Service route) = None then [CallDelete route] else [])"

definition service_calls :: "ExternalServicesController \<Rightarrow> Pod \<Rightarrow> Service list \<Rightarrow> call list" where
  "service_calls c proxy ss =
     concat (map (\<lambda>service. if store_Get (endpoints c) service \<noteq> None
                             then [CallAdd service proxy] else []) ss)"

definition converge_calls :: "ExternalServicesController \<Rightarrow> Pod list \<Rightarrow> call list" where
  "converge_calls c ps = concat (map (\<lambda>proxy. service_calls c proxy (store_List (services c))) ps)"

definition reconcile_plan :: "ExternalServicesController \<Rightarrow> call list" where
  "reconcile_plan c =
     concat (map (prune_calls c) (routes_List (routes c))) @
     converge_calls c (store_List (proxies c))"

section \<open>Example objects\<close>

text \<open>
  A node with address 10.0.0.1 (in the 16-byte form \<^verbatim>\<open>net.ParseIP\<close> gives an IPv4 address),
  a node with the IPv6 address 2001:db8::1, and a few objects of each kind.
\<close>

definition ex_types :: types where
  "ex_types = \<lparr>KubeProxyPrefix = ''kube-proxy'', KubeProxyNamespace = ''kube-system''\<rparr>"

definition ex_node :: IP where
  "ex_node = [0, 0, 0, 0, 0, 0, 0, 0, 0, 0, 0xff, 0xff, 10, 0, 0, 1]"

definition ex_node6 :: IP where
  "ex_node6 = [0x20, 0x01, 0x0d, 0xb8, 0, 0, 0, 0, 0, 0, 0, 0, 0, 0, 0, 1]"

definition ex_proxy :: Pod where
  "ex_proxy = \<lparr>Name = ''kube-proxy-x7k2p'', Namespace = ''kube-system'',
               HostIP = ''10.0.0.1'', Ready = True\<rparr>"

definition ex_gone_proxy :: Pod where
  "ex_gone_proxy = \<lparr>Name = ''kube-proxy-gone'', Namespace = ''kube-system'',
                    HostIP = ''10.0.0.1'', Ready = True\<rparr>"

definition ex_other_node_proxy :: Pod where
  "ex_other_node_proxy = \<lparr>Name = ''kube-proxy-q9'', Namespace = ''kube-system'',
                          HostIP = ''10.0.0.2'', Ready = True\<rparr>"

definition ex_node6_proxy :: Pod where
  "ex_node6_proxy = \<lparr>Name = ''kube-proxy-v6'', Namespace = ''kube-system'',
                     HostIP = ''2001:db8::1'', Ready = True\<rparr>"

definition ex_service :: Service where
  "ex_service = \<lparr>Name = ''web'', Namespace = ''default'', ExternalIPs = [''1.2.3.4'']\<rparr>"

definition ex_service_without_ips :: Service where
  "ex_service_without_ips = \<lparr>Name = ''web'', Namespace = ''default'', ExternalIPs = []\<rparr>"

definition ex_old_service :: Service where
  "ex_old_service = \<lparr>Name = ''legacy'', Namespace = ''default'', ExternalIPs = [''1.2.3.9'']\<rparr>"

definition ex_internal_service :: Service where
  "ex_internal_service = \<lparr>Name = ''db'', Namespace = ''default'', ExternalIPs = []\<rparr>"

definition ex_endpoints :: Endpoints where
  "ex_endpoints = \<lparr>Name = ''web'', Namespace = ''default'',
                   Subsets = [\<lparr>Addresses = [''10.1.0.5'']\<rparr>]\<rparr>"

definition ex_empty_endpoints :: Endpoints where
  "ex_empty_endpoints = \<lparr>Name = ''db'', Namespace = ''default'',
                         Subsets = [\<lparr>Addresses = []\<rparr>]\<rparr>"

definition ex_filled_endpoints :: Endpoints where
  "ex_filled_endpoints = \<lparr>Name = ''db'', Namespace = ''default'',
                          Subsets = [\<lparr>Addresses = []\<rparr>, \<lparr>Addresses = [''10.1.0.9'']\<rparr>]\<rparr>"

definition ex_route :: ExternalIPRoute where
  "ex_route = \<lparr>Service = ex_service, Proxy = ex_proxy\<rparr>"

definition ex_old_route :: ExternalIPRoute where
  "ex_old_route = \<lparr>Service = ex_old_service, Proxy = ex_proxy\<rparr>"

definition ex_gone_route :: ExternalIPRoute where
  "ex_gone_route = \<lparr>Service = ex_service, Proxy = ex_gone_proxy\<rparr>"

text \<open>Route stores that accept every call, refuse every call, refuse the second call.\<close>

definition ex_bgp_ok :: bgp where
  "ex_bgp_ok h x = None"

definition ex_bgp_down :: bgp where
  "ex_bgp_down h x = Some ''peer unreachable''"

definition ex_bgp_second_fails :: bgp where
  "ex_bgp_second_fails h x = (if length h = 1 then Some ''peer unreachable'' else None)"

text \<open>
  Controllers: just constructed; with one proxy, service and endpoints cached and a given
  route list; with empty caches and one route left over.
\<close>

definition ex_fresh :: ExternalServicesController where
  "ex_fresh = NewExternalServicesController ex_node \<lparr>entries = [], issued = []\<rparr>"

definition ex_fresh6 :: ExternalServicesController where
  "ex_fresh6 = NewExternalServicesController ex_node6 \<lparr>entries = [], issued = []\<rparr>"

definition ex_with_routes :: "ExternalIPRoute list \<Rightarrow> ExternalServicesController" where
  "ex_with_routes rs =
     \<lparr>routes = \<lparr>entries = rs, issued = []\<rparr>, reconciler = 0, hostIP = ex_node,
      services = [ex_service], endpoints = [ex_endpoints], proxies = [ex_proxy]\<rparr>"

definition ex_orphaned :: ExternalServicesController where
  "ex_orphaned = NewExternalServicesController ex_node \<lparr>entries = [ex_route], issued = []\<rparr>"

section \<open>Facts about the stores\<close>

lemmas ex_defs = ex_types_def ex_node_def ex_node6_def ex_proxy_def ex_gone_proxy_def
  ex_other_node_proxy_def ex_node6_proxy_def ex_service_def ex_service_without_ips_def
  ex_old_service_def ex_internal_service_def ex_endpoints_def ex_empty_endpoints_def
  ex_filled_endpoints_def ex_route_def ex_old_route_def ex_gone_route_def ex_bgp_ok_def
  ex_bgp_down_def ex_bgp_second_fails_def ex_fresh_def ex_fresh6_def ex_with_routes_def
  ex_orphaned_def NewExternalServicesController_def NewStore_def

lemmas handler_defs = podAdd_def podDelete_def podUpdate_def serviceAdd_def serviceDelete_def
  serviceUpdate_def endpointsAdd_def endpointsDelete_def endpointsUpdate_def Dirty_def
  store_Add_def store_Delete_def store_Get_def store_List_def same_key_def
  MetaNamespaceKeyFunc_def HasPrefix_def IsPodReady_def IP_String_def To4_def isZeros_def
  uitoa.simps proxy_ready_def service_ready_def endpoints_ready_def keys_distinct_def
  entries_for_def

lemmas reconcile_defs = reconcile_def reconcile_calls_def prune_route_def routes_Delete_def
  routes_Add_def routes_List_def store_List_def store_Get_def same_key_def
  MetaNamespaceKeyFunc_def route_key_def route_valid_def failed_checks_def

lemma same_key_fun: "same_key obj = (\<lambda>x. MetaNamespaceKeyFunc x = MetaNamespaceKeyFunc obj)"
  by (rule ext) (simp add: same_key_def)

lemma store_Get_None_iff:
  "store_Get st obj = None \<longleftrightarrow> (\<forall>x\<in>set st. MetaNamespaceKeyFunc x \<noteq> MetaNamespaceKeyFunc obj)"
  by (auto simp: store_Get_def same_key_def find_None_iff)

lemma store_Get_same_key:
  "MetaNamespaceKeyFunc a = MetaNamespaceKeyFunc b \<Longrightarrow> (store_Get st a = None) = (store_Get st b = None)"
  by (simp add: store_Get_None_iff)

lemma set_store_Delete: "set (store_Delete st obj) \<subseteq> set st"
  by (auto simp: store_Delete_def)

lemma set_store_Add: "set (store_Add st obj) \<subseteq> insert obj (set st)"
  by (auto simp: store_Add_def)

lemma store_Get_after_Add: "store_Get (store_Add st obj) obj \<noteq> None"
  by (auto simp: store_Get_None_iff store_Add_def same_key_def)

lemma store_Get_after_Delete: "store_Get (store_Delete st obj) obj = None"
  by (auto simp: store_Get_None_iff store_Delete_def same_key_def)

text \<open>The stores the handlers build hold one object per key.\<close>

lemma keys_distinct_NewStore: "keys_distinct NewStore"
  by (simp add: keys_distinct_def NewStore_def store_List_def)

lemma keys_distinct_Delete: "keys_distinct st \<Longrightarrow> keys_distinct (store_Delete st obj)"
  by (simp add: keys_distinct_def store_List_def store_Delete_def distinct_map_filter)

lemma keys_distinct_Add:
  assumes "keys_distinct st"
  shows "keys_distinct (store_Add st obj)"
proof (cases "store_Get st obj = None")
  case True
  then have "MetaNamespaceKeyFunc obj \<notin> MetaNamespaceKeyFunc ` set st"
    by (auto simp: store_Get_None_iff)
  with assms True show ?thesis
    by (simp add: keys_distinct_def store_List_def store_Add_def)
next
  case False
  then have add: "store_Add st obj = map (\<lambda>x. if same_key obj x then obj else x) st"
    by (auto simp: store_Add_def)
  have "map MetaNamespaceKeyFunc (map (\<lambda>x. if same_key obj x then obj else x) st) =
          map MetaNamespaceKeyFunc st"
    by (induction st) (auto simp: same_key_def)
  then have "map MetaNamespaceKeyFunc (store_Add st obj) = map MetaNamespaceKeyFunc st"
    by (simp only: add)
  with assms show ?thesis
    unfolding keys_distinct_def store_List_def by (simp only:)
qed

lemma filter_key_one:
  "distinct (map f xs) \<Longrightarrow> x \<in> set xs \<Longrightarrow> length (filter (\<lambda>y. f y = f x) xs) = 1"
proof (induction xs)
  case Nil
  then show ?case by simp
next
  case (Cons a xs)
  show ?case
  proof (cases "f a = f x")
    case True
    with Cons.prems have "\<forall>y\<in>set xs. f y \<noteq> f x" by (auto simp: image_iff)
    then have "filter (\<lambda>y. f y = f x) xs = []" by (simp add: filter_empty_conv)
    with True show ?thesis by simp
  next
    case False
    with Cons show ?thesis by auto
  qed
qed

lemma entries_for_cached:
  assumes "keys_distinct st" and "store_Get st obj \<noteq> None"
  shows "entries_for obj st = 1"
proof -
  from assms(2) obtain x where x: "x \<in> set st" "MetaNamespaceKeyFunc x = MetaNamespaceKeyFunc obj"
    unfolding store_Get_None_iff by blast
  have "length (filter (\<lambda>y. MetaNamespaceKeyFunc y = MetaNamespaceKeyFunc x) st) = 1"
    using assms(1) x(1) unfolding keys_distinct_def store_List_def by (rule filter_key_one)
  then show ?thesis
    by (simp add: entries_for_def store_List_def same_key_fun x(2))
qed

lemma entries_for_added:
  assumes "store_Get st obj = None"
  shows "entries_for obj (store_Add st obj) = 1"
proof -
  from assms have "filter (same_key obj) st = []"
    by (auto simp: store_Get_None_iff filter_empty_conv same_key_def)
  with assms show ?thesis
    by (simp add: entries_for_def store_List_def store_Add_def same_key_def)
qed

section \<open>Facts about the handlers\<close>

lemma Dirty_fields:
  "proxies (Dirty c) = proxies c" "services (Dirty c) = services c"
  "endpoints (Dirty c) = endpoints c" "hostIP (Dirty c) = hostIP c" "routes (Dirty c) = routes c"
  "reconciler (Dirty c) = Suc (reconciler c)"
  by (simp_all add: Dirty_def)

lemma subsets_ready_iff: "subsets_ready vs \<longleftrightarrow> (\<exists>v\<in>set vs. Addresses v \<noteq> [])"
  by (induction vs) auto

lemma podAdd_ready:
  "proxy_ready T c pod \<Longrightarrow>
     podAdd T pod c = (if store_Get (proxies c) pod = None
                       then Dirty (c\<lparr>proxies := store_Add (proxies c) pod\<rparr>) else c)"
  by (simp add: podAdd_def proxy_ready_def)

lemma serviceAdd_ready:
  "service_ready s \<Longrightarrow>
     serviceAdd s c = (if store_Get (services c) s = None
                       then Dirty (c\<lparr>services := store_Add (services c) s\<rparr>) else c)"
  by (simp add: serviceAdd_def service_ready_def)

lemma endpointsAdd_ready:
  "endpoints_ready eps \<Longrightarrow>
     endpointsAdd eps c = (if store_Get (endpoints c) eps = None
                           then Dirty (c\<lparr>endpoints := store_Add (endpoints c) eps\<rparr>) else c)"
  by (simp add: endpointsAdd_def endpoints_ready_def subsets_ready_iff)

lemma podAdd_twice:
  assumes "proxy_ready T c pod" and "keys_distinct (proxies c)"
  shows "podAdd T pod (podAdd T pod c) = podAdd T pod c \<and>
         entries_for pod (proxies (podAdd T pod c)) = 1"
proof (cases "store_Get (proxies c) pod = None")
  case True
  let ?c1 = "Dirty (c\<lparr>proxies := store_Add (proxies c) pod\<rparr>)"
  have c1: "podAdd T pod c = ?c1" using assms(1) True by (simp add: podAdd_ready)
  have "proxy_ready T ?c1 pod" using assms(1) by (simp add: proxy_ready_def Dirty_fields)
  then have "podAdd T pod ?c1 = ?c1"
    by (simp add: podAdd_ready Dirty_fields store_Get_after_Add)
  moreover have "entries_for pod (proxies ?c1) = 1"
    using True by (simp add: Dirty_fields entries_for_added)
  ultimately show ?thesis by (simp add: c1)
next
  case False
  then have same: "podAdd T pod c = c"
    using assms(1) by (auto simp: podAdd_ready)
  have "entries_for pod (proxies c) = 1"
    using assms(2) False by (rule entries_for_cached)
  then show ?thesis by (simp add: same)
qed

lemma serviceAdd_twice:
  assumes "service_ready s" and "keys_distinct (services c)"
  shows "serviceAdd s (serviceAdd s c) = serviceAdd s c \<and>
         entries_for s (services (serviceAdd s c)) = 1"
proof (cases "store_Get (services c) s = None")
  case True
  let ?c1 = "Dirty (c\<lparr>services := store_Add (services c) s\<rparr>)"
  have c1: "serviceAdd s c = ?c1" using assms(1) True by (simp add: serviceAdd_ready)
  have "serviceAdd s ?c1 = ?c1"
    using assms(1) by (simp add: serviceAdd_ready Dirty_fields store_Get_after_Add)
  moreover have "entries_for s (services ?c1) = 1"
    using True by (simp add: Dirty_fields entries_for_added)
  ultimately show ?thesis by (simp add: c1)
next
  case False
  then have same: "serviceAdd s c = c"
    using assms(1) by (auto simp: serviceAdd_ready)
  have "entries_for s (services c) = 1"
    using assms(2) False by (rule entries_for_cached)
  then show ?thesis by (simp add: same)
qed

lemma endpointsAdd_twice:
  assumes "endpoints_ready eps" and "keys_distinct (endpoints c)"
  shows "endpointsAdd eps (endpointsAdd eps c) = endpointsAdd eps c \<and>
         entries_for eps (endpoints (endpointsAdd eps c)) = 1"
proof (cases "store_Get (endpoints c) eps = None")
  case True
  let ?c1 = "Dirty (c\<lparr>endpoints := store_Add (endpoints c) eps\<rparr>)"
  have c1: "endpointsAdd eps c = ?c1" using assms(1) True by (simp add: endpointsAdd_ready)
  have "endpointsAdd eps ?c1 = ?c1"
    using assms(1) by (simp add: endpointsAdd_ready Dirty_fields store_Get_after_Add)
  moreover have "entries_for eps (endpoints ?c1) = 1"
    using True by (simp add: Dirty_fields entries_for_added)
  ultimately show ?thesis by (simp add: c1)
next
  case False
  then have same: "endpointsAdd eps c = c"
    using assms(1) by (auto simp: endpointsAdd_ready)
  have "entries_for eps (endpoints c) = 1"
    using assms(2) False by (rule entries_for_cached)
  then show ?thesis by (simp add: same)
qed

text \<open>The pod handlers never change the node address and keep the host-address invariant.\<close>

lemma hostIP_podAdd: "hostIP (podAdd T pod c) = hostIP c"
  by (simp add: podAdd_def Dirty_def)

lemma hostIP_podDelete: "hostIP (podDelete pod c) = hostIP c"
  by (simp add: podDelete_def Dirty_def)

lemma hostIP_pod_notify: "hostIP (pod_notify T e c) = hostIP c"
  by (cases e) (simp_all add: hostIP_podAdd hostIP_podDelete podUpdate_def)

lemma podAdd_host:
  assumes "\<forall>p\<in>set (proxies c). HostIP p = IP_String (To4 (hostIP c))"
  shows "\<forall>p\<in>set (proxies (podAdd T pod c)). HostIP p = IP_String (To4 (hostIP c))"
  using assms set_store_Add[of "proxies c" pod] set_store_Delete[of "proxies c" pod]
  by (auto simp: podAdd_def Dirty_fields)

lemma podDelete_host:
  assumes "\<forall>p\<in>set (proxies c). HostIP p = IP_String (To4 (hostIP c))"
  shows "\<forall>p\<in>set (proxies (podDelete pod c)). HostIP p = IP_String (To4 (hostIP c))"
  using assms set_store_Delete[of "proxies c" pod]
  by (auto simp: podDelete_def Dirty_fields)

lemma pod_notify_host:
  assumes "\<forall>p\<in>set (proxies c). HostIP p = IP_String (To4 (hostIP c))"
  shows "\<forall>p\<in>set (proxies (pod_notify T e c)). HostIP p = IP_String (To4 (hostIP c))"
proof (cases e)
  case (PodAdded pod)
  then show ?thesis using podAdd_host [OF assms, of T pod] by simp
next
  case (PodUpdated old cur)
  then show ?thesis using podAdd_host [OF assms, of T cur] by (simp add: podUpdate_def)
next
  case (PodDeleted pod)
  then show ?thesis using podDelete_host [OF assms, of pod] by simp
qed

lemma pod_events_host:
  assumes "\<forall>p\<in>set (proxies c). HostIP p = IP_String (To4 (hostIP c))"
  shows "\<forall>p\<in>set (proxies (pod_events T evs c)). HostIP p = IP_String (To4 (hostIP c))"
  using assms
proof (induction evs arbitrary: c)
  case Nil
  then show ?case by simp
next
  case (Cons e evs)
  have "\<forall>p\<in>set (proxies (pod_notify T e c)).
          HostIP p = IP_String (To4 (hostIP (pod_notify T e c)))"
    using pod_notify_host [OF Cons.prems, of T e] by (simp add: hostIP_pod_notify)
  then have "\<forall>p\<in>set (proxies (pod_events T evs (pod_notify T e c))).
          HostIP p = IP_String (To4 (hostIP (pod_notify T e c)))"
    by (rule Cons.IH)
  then show ?case by (simp add: hostIP_pod_notify)
qed

text \<open>The endpoints handlers keep every cached object ready.\<close>

lemma endpointsAdd_ready_inv:
  assumes "\<forall>e\<in>set (endpoints c). endpoints_ready e"
  shows "\<forall>e\<in>set (endpoints (endpointsAdd eps c)). endpoints_ready e"
  using assms set_store_Add[of "endpoints c" eps] set_store_Delete[of "endpoints c" eps]
  by (auto simp: endpointsAdd_def Dirty_fields endpoints_ready_def subsets_ready_iff)

lemma endpointsDelete_ready_inv:
  assumes "\<forall>e\<in>set (endpoints c). endpoints_ready e"
  shows "\<forall>e\<in>set (endpoints (endpointsDelete eps c)). endpoints_ready e"
  using assms set_store_Delete[of "endpoints c" eps]
  by (auto simp: endpointsDelete_def Dirty_fields)

lemma endpoints_notify_ready_inv:
  assumes "\<forall>e\<in>set (endpoints c). endpoints_ready e"
  shows "\<forall>e\<in>set (endpoints (endpoints_notify ev c)). endpoints_ready e"
proof (cases ev)
  case (EndpointsAdded eps)
  then show ?thesis using endpointsAdd_ready_inv [OF assms, of eps] by simp
next
  case (EndpointsUpdated old cur)
  then show ?thesis
    using endpointsAdd_ready_inv [OF assms, of cur] by (simp add: endpointsUpdate_def)
next
  case (EndpointsDeleted eps)
  then show ?thesis using endpointsDelete_ready_inv [OF assms, of eps] by simp
qed

lemma endpoints_events_ready_inv:
  assumes "\<forall>e\<in>set (endpoints c). endpoints_ready e"
  shows "\<forall>e\<in>set (endpoints (endpoints_events evs c)). endpoints_ready e"
  using assms
proof (induction evs arbitrary: c)
  case Nil
  then show ?case by simp
next
  case (Cons ev evs)
  have "\<forall>e\<in>set (endpoints (endpoints_notify ev c)). endpoints_ready e"
    using Cons.prems by (rule endpoints_notify_ready_inv)
  then have "\<forall>e\<in>set (endpoints (endpoints_events evs (endpoints_notify ev c))). endpoints_ready e"
    by (rule Cons.IH)
  then show ?case by simp
qed

section \<open>Facts about reconcile\<close>

text \<open>\<^verbatim>\<open>reconcile\<close> issues the calls of its plan, in order, up to the first error.\<close>

lemma apply_call_eq:
  "apply_call B x st =
     (B (issued st) x,
      st\<lparr>entries := (if B (issued st) x = None then call_effect x (entries st) else entries st),
         issued := issued st @ [(x, B (issued st) x)]\<rparr>)"
  by (cases x) (auto simp: routes_Delete_def routes_Add_def split: option.splits)

lemma run_calls_append:
  "run_calls B (xs @ ys) st =
     (case run_calls B xs st of
        (Some err, st') \<Rightarrow> (Some err, st')
      | (None, st') \<Rightarrow> run_calls B ys st')"
  by (induction xs arbitrary: st) (auto split: prod.splits option.splits)

lemma prune_route_run: "prune_route B c route st = run_calls B (prune_calls c route) st"
  by (auto simp: prune_route_def prune_calls_def split: prod.splits option.splits)

lemma prune_run: "prune B c rs st = run_calls B (concat (map (prune_calls c) rs)) st"
  by (induction rs arbitrary: st)
     (auto simp: prune_route_run run_calls_append split: prod.splits option.splits)

lemma converge_services_run:
  "converge_services B c proxy ss st = run_calls B (service_calls c proxy ss) st"
  by (induction ss arbitrary: st) (auto simp: service_calls_def split: prod.splits option.splits)

lemma converge_run: "converge B c ps st = run_calls B (converge_calls c ps) st"
  by (induction ps arbitrary: st)
     (auto simp: converge_calls_def converge_services_run run_calls_append
           split: prod.splits option.splits)

lemma reconcile_run:
  "reconcile B c =
     (case run_calls B (reconcile_plan c) (routes c) of (res, st) \<Rightarrow> (res, c\<lparr>routes := st\<rparr>))"
  by (auto simp: reconcile_def reconcile_plan_def prune_run converge_run run_calls_append
           split: prod.splits option.splits)

lemma run_calls_issued:
  "issued (snd (run_calls B xs st)) = issued st @ answers B (issued st) xs"
  by (induction xs arbitrary: st) (auto simp: apply_call_eq split: option.splits)

lemma reconcile_calls_answers:
  "reconcile_calls B c = answers B (issued (routes c)) (reconcile_plan c)"
  by (simp add: reconcile_calls_def reconcile_run run_calls_issued split: prod.splits)
     (metis run_calls_issued append_eq_conv_conj snd_conv)

lemma answers_error_last:
  "answers B h xs = pre @ (x, Some err) # post \<Longrightarrow> post = []"
proof (induction xs arbitrary: h pre)
  case Nil
  then show ?case by simp
next
  case (Cons y ys)
  show ?case
  proof (cases "B h y")
    case None
    with Cons.prems obtain pre' where "pre = (y, None) # pre'"
      and "answers B (h @ [(y, None)]) ys = pre' @ (x, Some err) # post"
      by (cases pre) auto
    then show ?thesis using Cons.IH by blast
  next
    case (Some e)
    with Cons.prems show ?thesis by (cases pre) auto
  qed
qed

lemma run_calls_result:
  "fst (run_calls B xs st) =
     (if answers B (issued st) xs = [] then None else snd (last (answers B (issued st) xs)))"
  by (induction xs arbitrary: st) (auto simp: apply_call_eq split: option.splits)

lemma answers_nonempty: "xs \<noteq> [] \<Longrightarrow> answers B h xs \<noteq> []"
  by (cases xs) (auto split: option.splits)

lemma answers_hd: "\<exists>res rest. answers B h (x # xs) = (x, res) # rest"
  by (auto split: option.splits)

lemma delete_targets_append: "delete_targets (xs @ ys) = delete_targets xs @ delete_targets ys"
  by (induction xs rule: delete_targets.induct) auto

lemma delete_targets_answers_subset:
  "set (delete_targets (answers B h xs)) \<subseteq> {r. CallDelete r \<in> set xs}"
proof (induction xs arbitrary: h)
  case Nil
  then show ?case by simp
next
  case (Cons x xs)
  have "set (delete_targets (answers B (h @ [(x, None)]) xs)) \<subseteq> {r. CallDelete r \<in> set xs}"
    using Cons.IH .
  then show ?case by (cases x) (auto split: option.splits)
qed

lemma run_calls_entries:
  "run_calls B xs st = (None, st') \<Longrightarrow> entries st' = fold call_effect xs (entries st)"
  by (induction xs arbitrary: st) (auto simp: apply_call_eq split: option.splits if_splits)

lemma run_calls_answers_ok:
  "fst (run_calls B xs st) = None \<Longrightarrow> answers B (issued st) xs = map (\<lambda>x. (x, None)) xs"
proof (induction xs arbitrary: st)
  case Nil
  then show ?case by simp
next
  case (Cons x xs)
  let ?st = "st\<lparr>entries := call_effect x (entries st), issued := issued st @ [(x, None)]\<rparr>"
  from Cons.prems have ok: "B (issued st) x = None"
    by (auto simp: apply_call_eq split: option.splits)
  with Cons.prems have "fst (run_calls B xs ?st) = None"
    by (simp add: apply_call_eq)
  then have "answers B (issued ?st) xs = map (\<lambda>x. (x, None)) xs"
    by (rule Cons.IH)
  with ok show ?case by simp
qed

lemma prune_calls_deletes: "x \<in> set (prune_calls c r) \<Longrightarrow> x = CallDelete r"
  by (auto simp: prune_calls_def split: if_splits)

lemma converge_calls_adds: "CallDelete r \<notin> set (converge_calls c ps)"
  by (auto simp: converge_calls_def service_calls_def split: if_splits)

lemma prune_calls_valid: "route_valid c r \<Longrightarrow> prune_calls c r = []"
  by (simp add: prune_calls_def route_valid_def)

lemma prune_calls_targets:
  "delete_targets (map (\<lambda>x. (x, None)) (prune_calls c r)) = replicate (failed_checks c r) r"
  by (simp add: prune_calls_def failed_checks_def)

lemma prune_plan_targets:
  "delete_targets (map (\<lambda>x. (x, None)) (concat (map (prune_calls c) rs))) =
     concat (map (\<lambda>r. replicate (failed_checks c r) r) rs)"
  by (induction rs) (simp_all add: delete_targets_append prune_calls_targets)

lemma count_list_replicates:
  "distinct rs \<Longrightarrow> r \<in> set rs \<Longrightarrow>
     count_list (concat (map (\<lambda>x. replicate (f x) x) rs)) r = f r"
proof (induction rs)
  case Nil
  then show ?case by simp
next
  case (Cons a rs)
  have other: "r \<notin> set rs \<Longrightarrow> count_list (concat (map (\<lambda>x. replicate (f x) x) rs)) r = 0"
    by (simp add: count_list_0_iff)
  have rep: "count_list (replicate n x) y = (if x = y then n else 0)" for n and x y :: 'a
    by (induction n) auto
  show ?case
  proof (cases "a = r")
    case True
    with Cons.prems other show ?thesis by (simp add: rep)
  next
    case False
    with Cons show ?thesis by (simp add: rep)
  qed
qed

lemma answers_deletes_then_adds:
  assumes "\<forall>x\<in>set ds. \<exists>y. x = CallDelete y"
    and "\<forall>y. CallDelete y \<notin> set as"
    and "\<forall>y err. (CallDelete y, Some err) \<notin> set (answers B h (ds @ as))"
  shows "delete_targets (answers B h (ds @ as)) = delete_targets (map (\<lambda>x. (x, None)) ds)"
  using assms
proof (induction ds arbitrary: h)
  case Nil
  have "set (delete_targets (answers B h as)) \<subseteq> {r. CallDelete r \<in> set as}"
    by (rule delete_targets_answers_subset)
  with Nil.prems(2) show ?case by auto
next
  case (Cons d ds)
  from Cons.prems(1) obtain y where d: "d = CallDelete y" by auto
  show ?case
  proof (cases "B h d")
    case None
    have "delete_targets (answers B (h @ [(d, None)]) (ds @ as)) =
            delete_targets (map (\<lambda>x. (x, None)) ds)"
    proof (rule Cons.IH)
      show "\<forall>x\<in>set ds. \<exists>y. x = CallDelete y" using Cons.prems(1) by simp
      show "\<forall>y. CallDelete y \<notin> set as" by (rule Cons.prems(2))
      show "\<forall>y err. (CallDelete y, Some err) \<notin> set (answers B (h @ [(d, None)]) (ds @ as))"
        using Cons.prems(3) None by simp
    qed
    with None d show ?thesis by simp
  next
    case (Some e)
    with Cons.prems(3) d show ?thesis by simp
  qed
qed

lemma route_valid_key: "route_key x = route_key y \<Longrightarrow> route_valid c x = route_valid c y"
  unfolding route_valid_def route_key_def
  by (metis prod.inject store_Get_same_key)

lemma fold_prune_calls:
  "fold call_effect (prune_calls c r) rs =
     (if route_valid c r then rs else filter (\<lambda>x. route_key x \<noteq> route_key r) rs)"
  by (auto simp: prune_calls_def route_valid_def)

lemma fold_prune_plan:
  "fold call_effect (concat (map (prune_calls c) xs)) rs =
     filter (\<lambda>e. \<forall>x\<in>set xs. route_valid c x \<or> route_key e \<noteq> route_key x) rs"
proof (induction xs arbitrary: rs)
  case Nil
  then show ?case by simp
next
  case (Cons x xs)
  show ?case
    by (simp add: Cons.IH fold_prune_calls)
qed

lemma prune_keeps_valid:
  "filter (\<lambda>e. \<forall>x\<in>set rs. route_valid c x \<or> route_key e \<noteq> route_key x) rs =
     filter (route_valid c) rs"
  by (rule filter_cong) (auto dest: route_valid_key)

lemma add_keys:
  "route_key ` set (call_effect (CallAdd s p) rs) =
     insert (MetaNamespaceKeyFunc s, MetaNamespaceKeyFunc p) (route_key ` set rs)"
proof (cases "find (\<lambda>x. route_key x = route_key \<lparr>Service = s, Proxy = p\<rparr>) rs")
  case None
  then show ?thesis by (simp add: route_key_def)
next
  case (Some y)
  then have "y \<in> set rs" "route_key y = (MetaNamespaceKeyFunc s, MetaNamespaceKeyFunc p)"
    by (auto simp: find_Some_iff route_key_def)
  then have "(MetaNamespaceKeyFunc s, MetaNamespaceKeyFunc p) \<in> route_key ` set rs"
    by (metis imageI)
  with Some show ?thesis by (simp add: insert_absorb)
qed

lemma fold_service_calls_keys:
  "route_key ` set (fold call_effect (service_calls c p ss) rs) =
     route_key ` set rs \<union>
     {(MetaNamespaceKeyFunc s, MetaNamespaceKeyFunc p) | s.
        s \<in> set ss \<and> store_Get (endpoints c) s \<noteq> None}"
proof (induction ss arbitrary: rs)
  case Nil
  then show ?case by (simp add: service_calls_def)
next
  case (Cons s ss)
  have step: "service_calls c p (s # ss) =
      (if store_Get (endpoints c) s \<noteq> None then [CallAdd s p] else []) @ service_calls c p ss"
    by (simp add: service_calls_def)
  show ?case
    unfolding step fold_append o_apply Cons.IH
    by (cases "store_Get (endpoints c) s = None") (auto simp: add_keys simp del: call_effect.simps)
qed

lemma fold_converge_calls_keys:
  "route_key ` set (fold call_effect (converge_calls c ps) rs) =
     route_key ` set rs \<union>
     {(MetaNamespaceKeyFunc s, MetaNamespaceKeyFunc p) | s p.
        p \<in> set ps \<and> s \<in> set (store_List (services c)) \<and> store_Get (endpoints c) s \<noteq> None}"
proof (induction ps arbitrary: rs)
  case Nil
  then show ?case by (simp add: converge_calls_def)
next
  case (Cons p ps)
  have step: "converge_calls c (p # ps) =
      service_calls c p (store_List (services c)) @ converge_calls c ps"
    by (simp add: converge_calls_def)
  show ?case
    unfolding step fold_append o_apply Cons.IH fold_service_calls_keys
    by auto
qed

lemma valid_keys_desired:
  assumes "route_valid c e"
  shows "\<exists>s p. route_key e = (MetaNamespaceKeyFunc s, MetaNamespaceKeyFunc p) \<and>
           p \<in> set (store_List (proxies c)) \<and> s \<in> set (store_List (services c)) \<and>
           store_Get (endpoints c) s \<noteq> None"
proof -
  have "store_Get (proxies c) (Proxy e) \<noteq> None"
    using assms by (simp add: route_valid_def)
  then obtain p where p: "p \<in> set (proxies c)"
      "MetaNamespaceKeyFunc p = MetaNamespaceKeyFunc (Proxy e)"
    unfolding store_Get_None_iff by blast
  have "store_Get (services c) (Service e) \<noteq> None"
    using assms by (simp add: route_valid_def)
  then obtain s where s: "s \<in> set (services c)"
      "MetaNamespaceKeyFunc s = MetaNamespaceKeyFunc (Service e)"
    unfolding store_Get_None_iff by blast
  have "store_Get (endpoints c) (Service e) \<noteq> None"
    using assms by (simp add: route_valid_def)
  with store_Get_same_key [OF s(2), of "endpoints c"]
  have eps: "store_Get (endpoints c) s \<noteq> None"
    by simp
  have "route_key e = (MetaNamespaceKeyFunc s, MetaNamespaceKeyFunc p)"
    by (simp add: route_key_def p(2) s(2))
  with p(1) s(1) eps show ?thesis
    unfolding store_List_def by blast
qed

section \<open>The claims\<close>

subsection \<open>Reconcile\<close>

text \<open>
  C1. Convergence of a single reconcile run: whatever the three caches and the route list
  hold, after a call of \<^verbatim>\<open>reconcile\<close> that returns no error the routes of the route store
  are exactly the pairs of a cached service that has an entry in the endpoints cache
  under its key, and a cached proxy. Routes are compared by their identity, the key of
  the Service and the key of the Proxy, which is also how the caches look them up.
\<close>

theorem reconcile_converges:
  assumes "reconcile B c = (None, c')"
  shows "route_key ` set (routes_List (routes c')) =
           {(MetaNamespaceKeyFunc s, MetaNamespaceKeyFunc p) | s p.
              p \<in> set (store_List (proxies c)) \<and> s \<in> set (store_List (services c)) \<and>
              store_Get (endpoints c) s \<noteq> None}"
proof -
  let ?want = "{(MetaNamespaceKeyFunc s, MetaNamespaceKeyFunc p) | s p.
              p \<in> set (store_List (proxies c)) \<and> s \<in> set (store_List (services c)) \<and>
              store_Get (endpoints c) s \<noteq> None}"
  from assms obtain st where run: "run_calls B (reconcile_plan c) (routes c) = (None, st)"
    and c': "c' = c\<lparr>routes := st\<rparr>"
    by (auto simp: reconcile_run split: prod.splits)
  have "entries st = fold call_effect (reconcile_plan c) (entries (routes c))"
    using run by (rule run_calls_entries)
  also have "\<dots> = fold call_effect (converge_calls c (store_List (proxies c)))
                     (filter (route_valid c) (entries (routes c)))"
    by (simp add: reconcile_plan_def routes_List_def fold_prune_plan prune_keeps_valid)
  finally have "route_key ` set (entries st) =
      route_key ` set (filter (route_valid c) (entries (routes c))) \<union> ?want"
    by (simp only: fold_converge_calls_keys)
  moreover have "route_key ` set (filter (route_valid c) (entries (routes c))) \<subseteq> ?want"
    using valid_keys_desired by fastforce
  ultimately show ?thesis
    by (auto simp: c' routes_List_def)
qed

text \<open>
  An instance: one proxy, one service and its endpoints are cached, the route store holds
  a route for a service that is no longer cached. The run removes it and adds the route
  of the cached pair.
\<close>

theorem reconcile_converges_witness:
  "fst (reconcile ex_bgp_ok (ex_with_routes [ex_old_route])) = None \<and>
   routes_List (routes (snd (reconcile ex_bgp_ok (ex_with_routes [ex_old_route])))) = [ex_route] \<and>
   route_key ` set (routes_List (routes (snd (reconcile ex_bgp_ok (ex_with_routes [ex_old_route]))))) =
     {(MetaNamespaceKeyFunc s, MetaNamespaceKeyFunc p) | s p.
        p \<in> set (store_List (proxies (ex_with_routes [ex_old_route]))) \<and>
        s \<in> set (store_List (services (ex_with_routes [ex_old_route]))) \<and>
        store_Get (endpoints (ex_with_routes [ex_old_route])) s \<noteq> None}"
proof -
  let ?c = "ex_with_routes [ex_old_route]"
  have ok: "fst (reconcile ex_bgp_ok ?c) = None"
    by (simp add: ex_defs reconcile_defs)
  then have run: "reconcile ex_bgp_ok ?c = (None, snd (reconcile ex_bgp_ok ?c))"
    by (simp add: prod_eq_iff)
  have list: "routes_List (routes (snd (reconcile ex_bgp_ok ?c))) = [ex_route]"
    by (simp add: ex_defs reconcile_defs)
  from ok list reconcile_converges [OF run] show ?thesis
    by (simp only: simp_thms)
qed

text \<open>
  C4. Prune correctness: when exactly one route of the route list has a Proxy that is not
  in the proxies cache and every other route passes the three validity checks, a run of
  \<^verbatim>\<open>reconcile\<close> invokes \<^verbatim>\<open>Delete\<close> on that route and on no other route, whatever the route
  store answers.
\<close>

theorem prune_deletes_only_route_of_missing_proxy:
  assumes "routes_List (routes c) = xs @ r # ys"
    and "store_Get (proxies c) (Proxy r) = None"
    and "\<forall>x\<in>set xs \<union> set ys. route_valid c x"
  shows "set (delete_targets (reconcile_calls B c)) = {r}"
proof -
  have nil: "concat (map (prune_calls c) zs) = []" if "\<forall>x\<in>set zs. route_valid c x" for zs
    using that by (induction zs) (simp_all add: prune_calls_valid)
  obtain more where r: "prune_calls c r = CallDelete r # more"
    using assms(2) by (simp add: prune_calls_def)
  have plan: "reconcile_plan c = CallDelete r # more @ converge_calls c (store_List (proxies c))"
    using assms(1,3) by (simp add: reconcile_plan_def nil r)
  have "set (delete_targets (reconcile_calls B c)) \<subseteq> {x. CallDelete x \<in> set (reconcile_plan c)}"
    unfolding reconcile_calls_answers by (rule delete_targets_answers_subset)
  moreover have "{x. CallDelete x \<in> set (reconcile_plan c)} \<subseteq> {r}"
    using prune_calls_deletes[of _ c r] r by (auto simp: plan converge_calls_adds)
  moreover have "r \<in> set (delete_targets (reconcile_calls B c))"
    unfolding reconcile_calls_answers plan
    using answers_hd[of B "issued (routes c)" "CallDelete r"] by (auto split: option.splits)
  ultimately show ?thesis by blast
qed

text \<open>An instance: two routes, the proxy of the second one has left the cache.\<close>

theorem prune_deletes_only_route_of_missing_proxy_witness:
  "routes_List (routes (ex_with_routes [ex_route, ex_gone_route])) = [ex_route] @ ex_gone_route # [] \<and>
   store_Get (proxies (ex_with_routes [ex_route, ex_gone_route])) (Proxy ex_gone_route) = None \<and>
   route_valid (ex_with_routes [ex_route, ex_gone_route]) ex_route \<and>
   set (delete_targets (reconcile_calls ex_bgp_ok (ex_with_routes [ex_route, ex_gone_route]))) =
     {ex_gone_route}"
proof -
  let ?c = "ex_with_routes [ex_route, ex_gone_route]"
  have h1: "routes_List (routes ?c) = [ex_route] @ ex_gone_route # []"
    by (simp add: ex_defs reconcile_defs)
  have h2: "store_Get (proxies ?c) (Proxy ex_gone_route) = None"
    by (simp add: ex_defs reconcile_defs)
  have valid: "route_valid ?c ex_route"
    by (simp add: ex_defs reconcile_defs)
  then have h3: "\<forall>x\<in>set [ex_route] \<union> set []. route_valid ?c x"
    by simp
  from h1 h2 valid prune_deletes_only_route_of_missing_proxy [OF h1 h2 h3, of ex_bgp_ok]
  show ?thesis by (simp only: simp_thms)
qed

text \<open>
  C5. Abort on removal failure: if a \<^verbatim>\<open>Delete\<close> that a run of \<^verbatim>\<open>reconcile\<close> issues returns
  an error, it is the last call of the run (no \<^verbatim>\<open>Delete\<close> or \<^verbatim>\<open>Add\<close> follows it) and
  \<^verbatim>\<open>reconcile\<close> returns that error.
\<close>

theorem reconcile_aborts_on_delete_error:
  assumes "reconcile_calls B c = pre @ (CallDelete r, Some err) # post"
  shows "post = [] \<and> fst (reconcile B c) = Some err"
proof -
  let ?as = "answers B (issued (routes c)) (reconcile_plan c)"
  have as: "?as = pre @ (CallDelete r, Some err) # post"
    using assms by (simp add: reconcile_calls_answers)
  then have post: "post = []" by (rule answers_error_last)
  have "fst (reconcile B c) = fst (run_calls B (reconcile_plan c) (routes c))"
    by (simp add: reconcile_run split: prod.splits)
  also have "\<dots> = snd (last ?as)"
    using as by (simp add: run_calls_result)
  also have "\<dots> = Some err"
    using as post by simp
  finally show ?thesis using post by simp
qed

text \<open>
  An instance: a route whose proxy, service and endpoints are all gone, and a route store
  that refuses the second call. The third \<^verbatim>\<open>Delete\<close> is never issued.
\<close>

theorem reconcile_aborts_on_delete_error_witness:
  "reconcile_calls ex_bgp_second_fails ex_orphaned =
     [(CallDelete ex_route, None)] @ (CallDelete ex_route, Some ''peer unreachable'') # [] \<and>
   fst (reconcile ex_bgp_second_fails ex_orphaned) = Some ''peer unreachable''"
proof -
  have h: "reconcile_calls ex_bgp_second_fails ex_orphaned =
     [(CallDelete ex_route, None)] @ (CallDelete ex_route, Some ''peer unreachable'') # []"
    by (simp add: ex_defs reconcile_defs)
  from h reconcile_aborts_on_delete_error [OF h] show ?thesis
    by (simp only: simp_thms)
qed

text \<open>
  C9, as amended. In a run of \<^verbatim>\<open>reconcile\<close> in which no \<^verbatim>\<open>Delete\<close> returns an error, a
  route of the route list that fails \<open>k\<close> of the three validity checks has \<^verbatim>\<open>Delete\<close>
  invoked on it \<open>k\<close> times: the three checks are three separate conditionals, each
  with its own \<^verbatim>\<open>Delete\<close>. (The route list of a keyed store lists a route once.)
\<close>

theorem prune_repeats_delete_per_failed_check:
  assumes "distinct (routes_List (routes c))"
    and "r \<in> set (routes_List (routes c))"
    and "\<forall>x err. (CallDelete x, Some err) \<notin> set (reconcile_calls B c)"
  shows "count_list (delete_targets (reconcile_calls B c)) r = failed_checks c r"
proof -
  let ?ds = "concat (map (prune_calls c) (routes_List (routes c)))"
  let ?as = "converge_calls c (store_List (proxies c))"
  have calls: "reconcile_calls B c = answers B (issued (routes c)) (?ds @ ?as)"
    by (simp add: reconcile_calls_answers reconcile_plan_def)
  have "delete_targets (answers B (issued (routes c)) (?ds @ ?as)) =
          delete_targets (map (\<lambda>x. (x, None)) ?ds)"
  proof (rule answers_deletes_then_adds)
    show "\<forall>x\<in>set ?ds. \<exists>y. x = CallDelete y"
      by (auto dest: prune_calls_deletes)
    show "\<forall>y. CallDelete y \<notin> set ?as"
      by (simp add: converge_calls_adds)
    show "\<forall>y err. (CallDelete y, Some err) \<notin> set (answers B (issued (routes c)) (?ds @ ?as))"
      using assms(3) calls by simp
  qed
  then have "delete_targets (reconcile_calls B c) =
               concat (map (\<lambda>r. replicate (failed_checks c r) r) (routes_List (routes c)))"
    by (simp add: calls prune_plan_targets)
  then show ?thesis
    using assms(1,2) by (simp add: count_list_replicates)
qed

text \<open>An instance: the route fails all three checks and is deleted three times.\<close>

theorem prune_repeats_delete_per_failed_check_witness:
  "distinct (routes_List (routes ex_orphaned)) \<and>
   ex_route \<in> set (routes_List (routes ex_orphaned)) \<and>
   reconcile_calls ex_bgp_ok ex_orphaned =
     [(CallDelete ex_route, None), (CallDelete ex_route, None), (CallDelete ex_route, None)] \<and>
   failed_checks ex_orphaned ex_route = 3 \<and>
   count_list (delete_targets (reconcile_calls ex_bgp_ok ex_orphaned)) ex_route = 3"
proof -
  have h1: "distinct (routes_List (routes ex_orphaned))"
    by (simp add: ex_defs reconcile_defs)
  have h2: "ex_route \<in> set (routes_List (routes ex_orphaned))"
    by (simp add: ex_defs reconcile_defs)
  have calls: "reconcile_calls ex_bgp_ok ex_orphaned =
     [(CallDelete ex_route, None), (CallDelete ex_route, None), (CallDelete ex_route, None)]"
    by (simp add: ex_defs reconcile_defs)
  then have h3: "\<forall>x err. (CallDelete x, Some err) \<notin> set (reconcile_calls ex_bgp_ok ex_orphaned)"
    by simp
  have k: "failed_checks ex_orphaned ex_route = 3"
    by (simp add: ex_defs reconcile_defs)
  from h1 h2 calls k prune_repeats_delete_per_failed_check [OF h1 h2 h3] show ?thesis
    by (simp only: simp_thms)
qed

text \<open>
  C9 as first stated, for every run, fails when a \<^verbatim>\<open>Delete\<close> returns an error: the run
  stops there. The route below fails all three checks; the route store refuses the first
  \<^verbatim>\<open>Delete\<close>, and \<^verbatim>\<open>Delete\<close> is invoked on the route once, not three times.
\<close>

theorem failing_delete_cuts_repeated_deletes:
  "distinct (routes_List (routes ex_orphaned)) \<and>
   ex_route \<in> set (routes_List (routes ex_orphaned)) \<and>
   failed_checks ex_orphaned ex_route = 3 \<and>
   count_list (delete_targets (reconcile_calls ex_bgp_down ex_orphaned)) ex_route = 1"
  by (simp add: ex_defs reconcile_defs)

subsection \<open>Event handlers\<close>

text \<open>
  C2. The claim: a Service add-or-update notification whose object has no external IP
  evicts the service from the cache, if it is cached, and raises a dirty signal. The
  code returns before it looks at the cache. Below, the service \<^verbatim>\<open>default/web\<close> is cached
  and an update delivers it without external IPs: the controller is left as it was, the
  service still cached and no dirty signal raised.
\<close>

theorem serviceUpdate_keeps_service_without_external_ips:
  "store_Get (services (ex_with_routes [ex_route])) ex_service_without_ips = Some ex_service \<and>
   serviceUpdate ex_service ex_service_without_ips (ex_with_routes [ex_route]) =
     ex_with_routes [ex_route] \<and>
   store_Get (services (serviceUpdate ex_service ex_service_without_ips (ex_with_routes [ex_route])))
     ex_service_without_ips = Some ex_service \<and>
   reconciler (serviceUpdate ex_service ex_service_without_ips (ex_with_routes [ex_route])) =
     reconciler (ex_with_routes [ex_route])"
  by (simp add: ex_defs handler_defs)

text \<open>
  C3. The claim: a Service delete notification for a service that is not cached is a
  no-op, with no dirty signal. The code deletes and signals without looking at the cache.
  Below, a service that never had external IPs is deleted on a controller that has just
  been constructed: the cache is unchanged, and a dirty signal is raised.
\<close>

theorem serviceDelete_uncached_raises_dirty:
  "store_Get (services ex_fresh) ex_internal_service = None \<and>
   services (serviceDelete ex_internal_service ex_fresh) = services ex_fresh \<and>
   reconciler ex_fresh = 0 \<and>
   reconciler (serviceDelete ex_internal_service ex_fresh) = 1"
  by (simp add: ex_defs handler_defs)

text \<open>
  C6. Add-path idempotence: for each of the three kinds, when the add handler is invoked
  twice in succession with the same ready object, the cache holds exactly one entry
  under the key of the object after the first invocation, and the second invocation
  leaves the controller as it is: no cache mutation, no dirty signal. (The update
  handlers are the add handlers applied to the new object.)
\<close>

theorem add_path_idempotent:
  "(proxy_ready T c pod \<and> keys_distinct (proxies c) \<longrightarrow>
      podAdd T pod (podAdd T pod c) = podAdd T pod c \<and>
      entries_for pod (proxies (podAdd T pod c)) = 1) \<and>
   (service_ready s \<and> keys_distinct (services c) \<longrightarrow>
      serviceAdd s (serviceAdd s c) = serviceAdd s c \<and>
      entries_for s (services (serviceAdd s c)) = 1) \<and>
   (endpoints_ready eps \<and> keys_distinct (endpoints c) \<longrightarrow>
      endpointsAdd eps (endpointsAdd eps c) = endpointsAdd eps c \<and>
      entries_for eps (endpoints (endpointsAdd eps c)) = 1)"
  using podAdd_twice serviceAdd_twice endpointsAdd_twice by blast

text \<open>
  An instance on a controller that has just been constructed: the first invocation caches
  the object and raises one dirty signal, the second changes nothing.
\<close>

theorem add_path_idempotent_witness:
  "proxy_ready ex_types ex_fresh ex_proxy \<and> keys_distinct (proxies ex_fresh) \<and>
   service_ready ex_service \<and> keys_distinct (services ex_fresh) \<and>
   endpoints_ready ex_endpoints \<and> keys_distinct (endpoints ex_fresh) \<and>
   reconciler (podAdd ex_types ex_proxy ex_fresh) = 1 \<and>
   podAdd ex_types ex_proxy (podAdd ex_types ex_proxy ex_fresh) = podAdd ex_types ex_proxy ex_fresh \<and>
   entries_for ex_proxy (proxies (podAdd ex_types ex_proxy ex_fresh)) = 1 \<and>
   serviceAdd ex_service (serviceAdd ex_service ex_fresh) = serviceAdd ex_service ex_fresh \<and>
   entries_for ex_service (services (serviceAdd ex_service ex_fresh)) = 1 \<and>
   endpointsAdd ex_endpoints (endpointsAdd ex_endpoints ex_fresh) = endpointsAdd ex_endpoints ex_fresh \<and>
   entries_for ex_endpoints (endpoints (endpointsAdd ex_endpoints ex_fresh)) = 1"
proof -
  have p: "proxy_ready ex_types ex_fresh ex_proxy" "keys_distinct (proxies ex_fresh)"
    by (simp_all add: ex_defs handler_defs)
  have s: "service_ready ex_service" "keys_distinct (services ex_fresh)"
    by (simp_all add: ex_defs handler_defs)
  have e: "endpoints_ready ex_endpoints" "keys_distinct (endpoints ex_fresh)"
    by (simp_all add: ex_defs handler_defs)
  have d: "reconciler (podAdd ex_types ex_proxy ex_fresh) = 1"
    by (simp add: ex_defs handler_defs)
  from p s e d
    add_path_idempotent [of ex_types ex_fresh ex_proxy ex_service ex_endpoints]
  show ?thesis by (simp only: simp_thms)
qed

text \<open>
  C7. Proxy host-address invariant: starting from an empty proxies cache, after any
  sequence of pod add, update and delete notifications, every cached pod reports the
  node's address as its host IP. The node's address is the text the handler compares
  with: the address given at construction, converted with \<^verbatim>\<open>To4\<close> and printed with
  \<^verbatim>\<open>String\<close>.
\<close>

theorem cached_proxies_report_node_address:
  "proxies c = NewStore \<Longrightarrow>
     \<forall>p\<in>set (store_List (proxies (pod_events T evs c))). HostIP p = IP_String (To4 (hostIP c))"
  using pod_events_host [of c T evs] by (simp add: NewStore_def store_List_def)

text \<open>
  An instance: a proxy of another node is notified and never cached, the proxy of this
  node is added and updated, a second one is added and deleted again.
\<close>

theorem cached_proxies_report_node_address_witness:
  "proxies ex_fresh = NewStore \<and>
   store_List (proxies (pod_events ex_types
      [PodAdded ex_other_node_proxy, PodAdded ex_proxy, PodUpdated ex_proxy ex_proxy,
       PodAdded ex_gone_proxy, PodDeleted ex_gone_proxy] ex_fresh)) = [ex_proxy] \<and>
   IP_String (To4 (hostIP ex_fresh)) = ''10.0.0.1'' \<and>
   HostIP ex_proxy = IP_String (To4 (hostIP ex_fresh))"
proof -
  let ?evs = "[PodAdded ex_other_node_proxy, PodAdded ex_proxy, PodUpdated ex_proxy ex_proxy,
       PodAdded ex_gone_proxy, PodDeleted ex_gone_proxy]"
  have h: "proxies ex_fresh = NewStore"
    by (simp add: ex_defs)
  have l: "store_List (proxies (pod_events ex_types ?evs ex_fresh)) = [ex_proxy]"
    by (simp add: ex_defs handler_defs)
  have a: "IP_String (To4 (hostIP ex_fresh)) = ''10.0.0.1''"
    by (simp add: ex_defs handler_defs)
  from cached_proxies_report_node_address [OF h, of ex_types ?evs]
  have "\<forall>p\<in>set [ex_proxy]. HostIP p = IP_String (To4 (hostIP ex_fresh))"
    by (simp only: l)
  then have "HostIP ex_proxy = IP_String (To4 (hostIP ex_fresh))"
    by simp
  with h l a show ?thesis by (simp only: simp_thms)
qed

text \<open>
  C8. Endpoints readiness invariant: starting from an empty endpoints cache, after any
  sequence of endpoints add, update and delete notifications, every cached Endpoints
  object has at least one subset whose address list is not empty.
\<close>

theorem cached_endpoints_have_address:
  "endpoints c = NewStore \<Longrightarrow>
     \<forall>e\<in>set (store_List (endpoints (endpoints_events evs c))).
        \<exists>v\<in>set (Subsets e). Addresses v \<noteq> []"
  using endpoints_events_ready_inv [of c evs]
  by (simp add: NewStore_def store_List_def endpoints_ready_def)

text \<open>
  An instance: endpoints without addresses are notified and not cached; they are cached
  once an update brings an address, and evicted when an update takes it away.
\<close>

theorem cached_endpoints_have_address_witness:
  "endpoints ex_fresh = NewStore \<and>
   store_List (endpoints (endpoints_events
      [EndpointsAdded ex_empty_endpoints, EndpointsAdded ex_endpoints,
       EndpointsUpdated ex_empty_endpoints ex_filled_endpoints] ex_fresh)) =
     [ex_endpoints, ex_filled_endpoints] \<and>
   store_List (endpoints (endpoints_events
      [EndpointsAdded ex_empty_endpoints, EndpointsAdded ex_endpoints,
       EndpointsUpdated ex_empty_endpoints ex_filled_endpoints,
       EndpointsUpdated ex_filled_endpoints ex_empty_endpoints] ex_fresh)) = [ex_endpoints] \<and>
   (\<exists>v\<in>set (Subsets ex_filled_endpoints). Addresses v \<noteq> [])"
proof -
  let ?evs = "[EndpointsAdded ex_empty_endpoints, EndpointsAdded ex_endpoints,
       EndpointsUpdated ex_empty_endpoints ex_filled_endpoints]"
  have h: "endpoints ex_fresh = NewStore"
    by (simp add: ex_defs)
  have l: "store_List (endpoints (endpoints_events ?evs ex_fresh)) =
             [ex_endpoints, ex_filled_endpoints]"
    by (simp add: ex_defs handler_defs)
  have l': "store_List (endpoints (endpoints_events
      [EndpointsAdded ex_empty_endpoints, EndpointsAdded ex_endpoints,
       EndpointsUpdated ex_empty_endpoints ex_filled_endpoints,
       EndpointsUpdated ex_filled_endpoints ex_empty_endpoints] ex_fresh)) = [ex_endpoints]"
    by (simp add: ex_defs handler_defs)
  from cached_endpoints_have_address [OF h, of ?evs]
  have "\<forall>e\<in>set [ex_endpoints, ex_filled_endpoints]. \<exists>v\<in>set (Subsets e). Addresses v \<noteq> []"
    by (simp only: l)
  then have "\<exists>v\<in>set (Subsets ex_filled_endpoints). Addresses v \<noteq> []"
    by simp
  with h l l' show ?thesis by (simp only: simp_thms)
qed

text \<open>
  C10. A node address without IPv4 form disables proxy caching: when \<^verbatim>\<open>To4\<close> of the
  address given at construction is nil (an IPv6 address, for one), the handler compares
  the host IP of every pod with the text \<^verbatim>\<open><nil>\<close>, so a pod add or update whose host IP is
  anything else - every non-empty address is - leaves the controller as it is: the pod is
  not inserted.
\<close>

theorem non_ipv4_node_caches_no_proxy:
  "To4 (hostIP c) = [] \<Longrightarrow> HostIP pod \<noteq> ''<nil>'' \<Longrightarrow>
     podAdd T pod c = c \<and> podUpdate T old pod c = c"
  by (simp add: podAdd_def podUpdate_def IP_String_def)

text \<open>
  An instance: the node has the address 2001:db8::1, and its own ready proxy, which
  reports that address, is not cached.
\<close>

theorem non_ipv4_node_caches_no_proxy_witness:
  "To4 (hostIP ex_fresh6) = [] \<and> HostIP ex_node6_proxy \<noteq> ''<nil>'' \<and>
   HasPrefix (Name ex_node6_proxy) (KubeProxyPrefix ex_types) \<and>
   Namespace ex_node6_proxy = KubeProxyNamespace ex_types \<and> IsPodReady ex_node6_proxy \<and>
   podAdd ex_types ex_node6_proxy ex_fresh6 = ex_fresh6 \<and>
   podUpdate ex_types ex_node6_proxy ex_node6_proxy ex_fresh6 = ex_fresh6 \<and>
   proxies ex_fresh6 = []"
proof -
  have h1: "To4 (hostIP ex_fresh6) = []"
    by (simp add: ex_defs handler_defs)
  have h2: "HostIP ex_node6_proxy \<noteq> ''<nil>''"
    by (simp add: ex_defs)
  have r: "HasPrefix (Name ex_node6_proxy) (KubeProxyPrefix ex_types)"
    "Namespace ex_node6_proxy = KubeProxyNamespace ex_types" "IsPodReady ex_node6_proxy"
    "proxies ex_fresh6 = []"
    by (simp_all add: ex_defs handler_defs)
  from h1 h2 r non_ipv4_node_caches_no_proxy [OF h1 h2, of ex_types ex_node6_proxy]
  show ?thesis by (simp only: simp_thms)
qed

end
